theory Spec2Isabelle
  imports Main "HOL-Library.Word"
begin

section \<open>Escape scanner (internal/escape\_simple.go, copyWithEscapeDetection)\<close>

type_synonym byte = "8 word"

text \<open>The two local flags of the forwarding loop.\<close>

record scanner =
  lastWasNewline :: bool
  tildeSeen :: bool

text \<open>What one iteration does with the byte it read: write bytes to the child's
  standard input, hold the byte back, or report the escape sequence.\<close>

datatype action = Forward "byte list" | Suppress | EscapeTriggered

definition tilde :: byte where "tilde = 126"
definition dot :: byte where "dot = 46"
definition CR :: byte where "CR = 13"
definition LF :: byte where "LF = 10"

definition isLineEnd :: "byte \<Rightarrow> bool" where
  "isLineEnd b = (b = CR \<or> b = LF)"

text \<open>The state the loop starts in: \<open>lastWasNewline := true\<close>, \<open>tildeSeen := false\<close>.\<close>

definition initScanner :: scanner where
  "initScanner = \<lparr>lastWasNewline = True, tildeSeen = False\<rparr>"

text \<open>The body of the loop for one byte \<open>b\<close>, branch by branch as in the source.\<close>

definition scan_byte :: "scanner \<Rightarrow> byte \<Rightarrow> action \<times> scanner" where
  "scan_byte s b =
     (if lastWasNewline s \<and> b = tilde then
        (Suppress, s\<lparr>tildeSeen := True, lastWasNewline := False\<rparr>)
      else if tildeSeen s then
        (if b = dot then (EscapeTriggered, s)
         else (Forward [tilde, b], s\<lparr>tildeSeen := False, lastWasNewline := isLineEnd b\<rparr>))
      else (Forward [b], s\<lparr>lastWasNewline := isLineEnd b\<rparr>))"

text \<open>Go \<open>error\<close> values, \<open>nil\<close> being \<open>None\<close> of \<open>goerror option\<close>: \<open>io.EOF\<close>, an error
  known by its message, the \<open>*exec.ExitError\<close> of a child that exited with a code, and an
  error wrapped by \<open>WrapError\<close> with the caller's location.\<close>

datatype goerror = EOF | ErrMsg string | ExitError nat | Wrapped string goerror

text \<open>What one iteration of the loop observes: the context is done, or \<open>src.Read(buf)\<close>
  returned \<open>n\<close>, the content of \<open>buf[0]\<close> and an error.\<close>

datatype read_event = CtxDone | Read nat byte "goerror option"

text \<open>How the loop stands once the events are used up: still blocked in the next
  iteration with its flags, or returned with an error value.\<close>

datatype copy_end = Reading scanner | Returned "goerror option"

text \<open>The loop: the writes to \<open>dst\<close> in order, whether \<open>true\<close> was sent on
  \<open>escapeDetected\<close>, and how the loop stands.\<close>

fun copyLoop :: "scanner \<Rightarrow> read_event list \<Rightarrow> byte list list \<times> bool \<times> copy_end" where
  "copyLoop s [] = ([], False, Reading s)"
| "copyLoop s (CtxDone # es) = ([], False, Returned None)"
| "copyLoop s (Read n b (Some e) # es) =
     ([], False, Returned (if e = EOF then None else Some e))"
| "copyLoop s (Read n b None # es) =
     (if n = 0 then copyLoop s es
      else (case scan_byte s b of
              (EscapeTriggered, s') \<Rightarrow> ([], True, Returned None)
            | (Suppress, s') \<Rightarrow> copyLoop s' es
            | (Forward w, s') \<Rightarrow>
                (case copyLoop s' es of (ws, esc, fin) \<Rightarrow> (w # ws, esc, fin))))"

definition copyWithEscapeDetection :: "read_event list \<Rightarrow> byte list list \<times> bool \<times> copy_end" where
  "copyWithEscapeDetection es = copyLoop initScanner es"

text \<open>A reader that delivers the bytes of \<open>bs\<close> one per read.\<close>

definition feed :: "byte list \<Rightarrow> read_event list" where
  "feed bs = map (\<lambda>b. Read 1 b None) bs"

text \<open>The bytes that reached the child, and the escape flag, for a byte stream.\<close>

definition forwarded :: "byte list \<Rightarrow> byte list" where
  "forwarded bs = concat (fst (copyWithEscapeDetection (feed bs)))"

definition escaped :: "byte list \<Rightarrow> bool" where
  "escaped bs = fst (snd (copyWithEscapeDetection (feed bs)))"

text \<open>A \<open>~\<close> at a line start: at index 0, or right after a CR or LF byte.\<close>

definition tildeAtLineStart :: "byte list \<Rightarrow> bool" where
  "tildeAtLineStart bs =
     (\<exists>i \<in> set [0..<length bs]. bs ! i = tilde \<and> (i = 0 \<or> isLineEnd (bs ! (i - 1))))"

text \<open>The same, read from the left with the line-start flag carried along.\<close>

fun tildeAfter :: "bool \<Rightarrow> byte list \<Rightarrow> bool" where
  "tildeAfter atStart [] = False"
| "tildeAfter atStart (b # bs) = ((atStart \<and> b = tilde) \<or> tildeAfter (isLineEnd b) bs)"


text \<open>The flag pairs the loop can be in: the initial one, and whatever an iteration
  leaves behind.\<close>

inductive reachable :: "scanner \<Rightarrow> bool" where
  reachable_init: "reachable initScanner"
| reachable_step: "reachable s \<Longrightarrow> scan_byte s b = (a, s') \<Longrightarrow> reachable s'"

text \<open>The escape sequence at index \<open>i\<close> of a stream: \<open>~\<close> at \<open>i\<close>, \<open>.\<close> right
  after it, and \<open>i\<close> is the stream start or follows a CR or LF byte.\<close>

definition escapeSeqAt :: "byte list \<Rightarrow> nat \<Rightarrow> bool" where
  "escapeSeqAt bs i =
     (Suc i < length bs \<and> bs ! i = tilde \<and> bs ! Suc i = dot \<and> (i = 0 \<or> isLineEnd (bs ! (i - 1))))"

text \<open>The same, read from the left with the line-start flag carried along.\<close>

fun escAfter :: "bool \<Rightarrow> byte list \<Rightarrow> bool" where
  "escAfter atStart [] = False"
| "escAfter atStart (b # bs) =
     ((atStart \<and> b = tilde \<and> (case bs of [] \<Rightarrow> False | c # _ \<Rightarrow> c = dot))
      \<or> escAfter (isLineEnd b) bs)"

section \<open>Process proxy (internal/escape\_simple.go, internal/ssm.go)\<close>

datatype signal = SIGINT | SIGTERM

datatype termmode = Cooked | Raw

text \<open>What the child's standard input is connected to: the caller's own standard input,
  or the pipe of \<open>cmd.StdinPipe()\<close>. Standard output and standard error are the caller's in
  every spawn of this file.\<close>

datatype stdin_binding = Inherited | Piped

text \<open>A \<open>time.Duration\<close> counts nanoseconds.\<close>

definition second :: nat where "second = 1000000000"

definition gracePeriod :: nat where "gracePeriod = 3 * second"

definition crlf :: string where "crlf = [CHR 0x0D, CHR 0x0A]"

text \<open>The calls of the calling goroutine that act on the terminal, the child or the helper
  goroutines, in program order. \<open>SignalChild\<close> and \<open>KillChild\<close> are the calls of
  \<open>cmd.Process.Signal\<close> and \<open>cmd.Process.Kill\<close>, whatever they return. The colour of a
  printed message is left out of \<open>WriteStderr\<close>. The goroutine that sleeps 100 ms and
  then prints a line break is not ordered with these calls and is not in the list.\<close>

datatype effect =
    Spawn stdin_binding
  | WaitChild
  | MakeRaw
  | Restore termmode
  | WriteStderr string
  | StartForwarding
  | NotifySignals "signal list"
  | SignalStop
  | Cancel
  | ClosePipe
  | SignalChild signal
  | KillChild
  | GoWait
  | GoProcessWait
  | TimeAfter nat
  | RecvProcessDone
  | RecvDone

text \<open>The case of the \<open>select\<close> in \<open>CallProcessWithSimpleEscape\<close> that fires.\<close>

datatype select_event =
    ProcessDone
  | EscapeDetected
  | SignalReceived signal
  | StdinErr "goerror option"

text \<open>The case of the \<open>select\<close> in \<open>terminateGracefully\<close> that fires: \<open>done\<close> delivered
  the error of \<open>cmd.Process.Wait()\<close> (known by its message), or the timer fired.\<close>

datatype grace_outcome = Exited "string option" | GraceElapsed

text \<open>What the environment decides during one call.\<close>

record env =
  isTerminal :: bool
  pipeErr :: "goerror option"
  startErr :: "goerror option"
  makeRawErr :: "goerror option"
  priorMode :: termmode
  waitResult :: "goerror option"
  winner :: select_event
  sigtermErr :: "goerror option"
  grace :: grace_outcome
  killErr :: "goerror option"

text \<open>\<open>WrapError\<close> (internal/error.go): \<open>nil\<close> stays \<open>nil\<close>, any other error is wrapped
  with the caller's function name and line.\<close>

fun WrapError :: "string \<Rightarrow> goerror option \<Rightarrow> goerror option" where
  "WrapError loc None = None"
| "WrapError loc (Some err) = Some (Wrapped loc err)"

fun isWaitError :: "string option \<Rightarrow> bool" where
  "isWaitError None = False"
| "isWaitError (Some errStr) =
     (errStr = ''wait: no child processes'' \<or> errStr = ''waitid: no child processes'')"

definition terminateGracefully :: "env \<Rightarrow> effect list \<times> goerror option" where
  "terminateGracefully e =
     (case sigtermErr e of
        Some err \<Rightarrow> ([SignalChild SIGTERM], None)
      | None \<Rightarrow>
         (case grace e of
            Exited err \<Rightarrow>
              (if err \<noteq> None \<and> err \<noteq> Some ''signal: terminated''
                  \<and> err \<noteq> Some ''signal: broken pipe'' \<and> \<not> isWaitError err
               then ([SignalChild SIGTERM, GoProcessWait, TimeAfter gracePeriod, RecvDone],
                     map_option ErrMsg err)
               else ([SignalChild SIGTERM, GoProcessWait, TimeAfter gracePeriod, RecvDone,
                      WriteStderr (''Session terminated gracefully'' @ crlf)], None))
          | GraceElapsed \<Rightarrow>
              (case killErr e of
                 Some err \<Rightarrow>
                   ([SignalChild SIGTERM, GoProcessWait, TimeAfter gracePeriod,
                     WriteStderr (''Graceful termination timed out, forcing exit...'' @ crlf),
                     KillChild], None)
               | None \<Rightarrow>
                   ([SignalChild SIGTERM, GoProcessWait, TimeAfter gracePeriod,
                     WriteStderr (''Graceful termination timed out, forcing exit...'' @ crlf),
                     KillChild, RecvDone], None))))"

text \<open>\<open>CallProcessDirect\<close>: \<open>cmd.Run()\<close> is \<open>cmd.Start()\<close> followed, if it succeeded, by
  \<open>cmd.Wait()\<close>.\<close>

definition CallProcessDirect :: "env \<Rightarrow> effect list \<times> goerror option" where
  "CallProcessDirect e =
     (case startErr e of
        Some err \<Rightarrow>
          ([NotifySignals [SIGINT]], WrapError ''internal.CallProcessDirect:672'' (Some err))
      | None \<Rightarrow>
          ([NotifySignals [SIGINT], Spawn Inherited, WaitChild],
           WrapError ''internal.CallProcessDirect:672'' (waitResult e)))"

text \<open>The four cases of the \<open>select\<close>, up to their \<open>return\<close>.\<close>

definition selectCase :: "env \<Rightarrow> effect list \<times> goerror option" where
  "selectCase e =
     (case winner e of
        ProcessDone \<Rightarrow> ([Cancel, WriteStderr crlf], waitResult e)
      | EscapeDetected \<Rightarrow>
          (case terminateGracefully e of
             (t, r) \<Rightarrow>
               ([Cancel, ClosePipe, Restore (priorMode e),
                 WriteStderr (crlf @ ''Escape sequence detected. Terminating session...'' @ crlf)]
                @ t, r))
      | SignalReceived sig \<Rightarrow> ([Cancel, ClosePipe, SignalChild sig, RecvProcessDone], None)
      | StdinErr err \<Rightarrow> ([Cancel, RecvProcessDone], err))"

text \<open>\<open>CallProcessWithSimpleEscape\<close>. The three deferred calls run at the \<open>return\<close> in
  reverse order of their \<open>defer\<close>: \<open>signal.Stop\<close>, \<open>cancel\<close>, \<open>term.Restore\<close>.\<close>

definition CallProcessWithSimpleEscape :: "env \<Rightarrow> effect list \<times> goerror option" where
  "CallProcessWithSimpleEscape e =
     (if \<not> isTerminal e then CallProcessDirect e
      else case pipeErr e of
        Some err \<Rightarrow> ([], WrapError ''internal.CallProcessWithSimpleEscape:34'' (Some err))
      | None \<Rightarrow>
         (case startErr e of
            Some err \<Rightarrow> ([], WrapError ''internal.CallProcessWithSimpleEscape:39'' (Some err))
          | None \<Rightarrow>
             (case makeRawErr e of
                Some err \<Rightarrow> ([Spawn Piped, WaitChild], waitResult e)
              | None \<Rightarrow>
                 (case selectCase e of
                    (body, ret) \<Rightarrow>
                      ([Spawn Piped, MakeRaw, StartForwarding,
                        NotifySignals [SIGINT, SIGTERM], GoWait]
                       @ body @ [SignalStop, Cancel, Restore (priorMode e)], ret)))))"

text \<open>The call reached the \<open>select\<close>: a terminal, and pipe, start and raw mode succeeded.\<close>

definition interactive :: "env \<Rightarrow> bool" where
  "interactive e =
     (isTerminal e \<and> pipeErr e = None \<and> startErr e = None \<and> makeRawErr e = None)"

text \<open>Reading a list of effects: the terminal mode it leaves, the restores in it, and
  the messages written before the first restore.\<close>

fun modeAfter :: "termmode \<Rightarrow> effect list \<Rightarrow> termmode" where
  "modeAfter m [] = m"
| "modeAfter m (MakeRaw # es) = modeAfter Raw es"
| "modeAfter m (Restore old # es) = modeAfter old es"
| "modeAfter m (x # es) = modeAfter m es"

fun isRestore :: "effect \<Rightarrow> bool" where
  "isRestore (Restore m) = True"
| "isRestore x = False"

fun written :: "effect \<Rightarrow> string list" where
  "written (WriteStderr s) = [s]"
| "written x = []"

definition restoreCount :: "effect list \<Rightarrow> nat" where
  "restoreCount es = length (filter isRestore es)"

definition writesBeforeRestore :: "effect list \<Rightarrow> string list" where
  "writesBeforeRestore es = concat (map written (takeWhile (\<lambda>x. \<not> isRestore x) es))"

text \<open>A concrete call for the examples: a terminal, everything succeeds, the child exits
  with code 7 and the process-exit case of the \<open>select\<close> fires.\<close>

definition exampleEnv :: env where
  "exampleEnv = \<lparr>isTerminal = True, pipeErr = None, startErr = None, makeRawErr = None,
     priorMode = Cooked, waitResult = Some (ExitError 7), winner = ProcessDone,
     sigtermErr = None, grace = GraceElapsed, killErr = None\<rparr>"

section \<open>Properties\<close>

subsection \<open>Streams without a tilde at a line start\<close>

lemma tildeAfter_index:
  "tildeAfter a bs = (\<exists>i<length bs. bs ! i = tilde \<and> (if i = 0 then a else isLineEnd (bs ! (i - 1))))"
proof (induction bs arbitrary: a)
  case Nil
  show ?case by simp
next
  case (Cons b bs)
  show ?case
  proof
    assume "tildeAfter a (b # bs)"
    then consider "a \<and> b = tilde" | "tildeAfter (isLineEnd b) bs" by auto
    then show "\<exists>i<length (b # bs). (b # bs) ! i = tilde \<and> (if i = 0 then a else isLineEnd ((b # bs) ! (i - 1)))"
    proof cases
      case 1
      then have "0 < length (b # bs) \<and> (b # bs) ! 0 = tilde \<and> (if (0::nat) = 0 then a else isLineEnd ((b # bs) ! (0 - 1)))"
        by simp
      then show ?thesis by (rule exI)
    next
      case 2
      then obtain i where i: "i < length bs" "bs ! i = tilde" "if i = 0 then isLineEnd b else isLineEnd (bs ! (i - 1))"
        using Cons.IH by blast
      have "isLineEnd ((b # bs) ! i)"
      proof (cases i)
        case 0
        then show ?thesis using i(3) by simp
      next
        case (Suc k)
        then show ?thesis using i(3) by simp
      qed
      then have "Suc i < length (b # bs) \<and> (b # bs) ! Suc i = tilde \<and> (if Suc i = 0 then a else isLineEnd ((b # bs) ! (Suc i - 1)))"
        using i(1,2) by simp
      then show ?thesis by (rule exI)
    qed
  next
    assume "\<exists>i<length (b # bs). (b # bs) ! i = tilde \<and> (if i = 0 then a else isLineEnd ((b # bs) ! (i - 1)))"
    then obtain i where i: "i < length (b # bs)" "(b # bs) ! i = tilde" "if i = 0 then a else isLineEnd ((b # bs) ! (i - 1))"
      by blast
    show "tildeAfter a (b # bs)"
    proof (cases i)
      case 0
      with i show ?thesis by simp
    next
      case (Suc j)
      have 1: "j < length bs" using i(1) Suc by simp
      have 2: "bs ! j = tilde" using i(2) Suc by simp
      have 3: "isLineEnd ((b # bs) ! j)" using i(3) Suc by simp
      have 4: "if j = 0 then isLineEnd b else isLineEnd (bs ! (j - 1))"
      proof (cases j)
        case 0
        then show ?thesis using 3 by simp
      next
        case (Suc k)
        then show ?thesis using 3 by simp
      qed
      have "\<exists>i<length bs. bs ! i = tilde \<and> (if i = 0 then isLineEnd b else isLineEnd (bs ! (i - 1)))"
        using 1 2 4 by blast
      then have "tildeAfter (isLineEnd b) bs" using Cons.IH by blast
      then show ?thesis by simp
    qed
  qed
qed

lemma tildeAtLineStart_code: "tildeAtLineStart bs = tildeAfter True bs"
proof -
  have "tildeAtLineStart bs
      = (\<exists>i. i < length bs \<and> bs ! i = tilde \<and> (i = 0 \<or> isLineEnd (bs ! (i - 1))))"
    unfolding tildeAtLineStart_def Bex_def by simp
  also have "\<dots> = (\<exists>i. i < length bs \<and> bs ! i = tilde \<and> (if i = 0 then True else isLineEnd (bs ! (i - 1))))"
    by (rule ex_cong1) simp
  also have "\<dots> = tildeAfter True bs"
    unfolding tildeAfter_index by blast
  finally show ?thesis .
qed

lemma scan_byte_plain:
  "\<not> tildeSeen s \<Longrightarrow> \<not> (lastWasNewline s \<and> b = tilde) \<Longrightarrow>
   scan_byte s b = (Forward [b], s\<lparr>lastWasNewline := isLineEnd b\<rparr>)"
  by (simp add: scan_byte_def)

lemma copyLoop_plain:
  "\<not> tildeSeen s \<Longrightarrow> \<not> tildeAfter (lastWasNewline s) bs \<Longrightarrow>
   \<exists>s'. copyLoop s (feed bs) = (map (\<lambda>b. [b]) bs, False, Reading s') \<and> \<not> tildeSeen s'"
proof (induction bs arbitrary: s)
  case Nil
  then show ?case by (simp add: feed_def)
next
  case (Cons b bs)
  let ?s = "s\<lparr>lastWasNewline := isLineEnd b\<rparr>"
  have sb: "scan_byte s b = (Forward [b], ?s)"
    using Cons.prems by (intro scan_byte_plain) auto
  have "\<not> tildeSeen ?s" using Cons.prems(1) by simp
  moreover have "\<not> tildeAfter (lastWasNewline ?s) bs" using Cons.prems(2) by simp
  ultimately obtain s' where s': "copyLoop ?s (feed bs) = (map (\<lambda>b. [b]) bs, False, Reading s')" "\<not> tildeSeen s'"
    using Cons.IH by blast
  have "copyLoop s (feed (b # bs)) = (map (\<lambda>b. [b]) (b # bs), False, Reading s')"
    using sb s'(1) by (simp add: feed_def)
  then show ?case using s'(2) by blast
qed

text \<open>
  Claim C3. A byte stream with no \<open>~\<close> at a line start (index 0, or right after a CR
  or LF byte) goes through the forwarding loop unchanged: one write per byte, in order, none
  held back, and the escape is never reported.
\<close>

theorem plain_stream_forwarded_unchanged:
  assumes "\<not> tildeAtLineStart bs"
  shows "fst (copyWithEscapeDetection (feed bs)) = map (\<lambda>b. [b]) bs
       \<and> forwarded bs = bs \<and> \<not> escaped bs"
proof -
  have "\<not> tildeSeen initScanner" by (simp add: initScanner_def)
  moreover have "\<not> tildeAfter (lastWasNewline initScanner) bs"
    using assms by (simp add: initScanner_def tildeAtLineStart_code)
  ultimately obtain s' where "copyLoop initScanner (feed bs) = (map (\<lambda>b. [b]) bs, False, Reading s')"
    using copyLoop_plain by blast
  then show ?thesis
    by (simp add: forwarded_def escaped_def copyWithEscapeDetection_def)
qed

theorem plain_stream_forwarded_unchanged_witness:
  "\<not> tildeAtLineStart [97, 126, 47, 10, 98, 126] \<and> forwarded [97, 126, 47, 10, 98, 126] = [97, 126, 47, 10, 98, 126]
   \<and> \<not> escaped [97, 126, 47, 10, 98, 126]"
proof -
  have h: "\<not> tildeAtLineStart [97, 126, 47, 10, 98, 126]"
    by (simp add: tildeAtLineStart_code tilde_def isLineEnd_def CR_def LF_def)
  show ?thesis using h plain_stream_forwarded_unchanged[OF h] by blast
qed


subsection \<open>The two flags of the scanner\<close>

lemma reachable_exclusive: "reachable s \<Longrightarrow> \<not> (tildeSeen s \<and> lastWasNewline s)"
proof (induction rule: reachable.induct)
  case reachable_init
  show ?case by (simp add: initScanner_def)
next
  case (reachable_step s b a s')
  then show ?case by (auto simp: scan_byte_def split: if_splits)
qed

lemma scan_byte_arm:
  "scan_byte s b = (a, s') \<Longrightarrow> \<not> tildeSeen s \<Longrightarrow> tildeSeen s' \<Longrightarrow>
   a = Suppress \<and> b = tilde \<and> lastWasNewline s \<and> \<not> lastWasNewline s'"
  by (auto simp: scan_byte_def split: if_splits)

lemma scan_byte_disarm:
  "scan_byte s b = (a, s') \<Longrightarrow> tildeSeen s \<Longrightarrow> \<not> lastWasNewline s \<Longrightarrow> a \<noteq> EscapeTriggered \<Longrightarrow>
   a = Forward [tilde, b] \<and> b \<noteq> dot \<and> \<not> tildeSeen s' \<and> lastWasNewline s' = isLineEnd b"
  by (auto simp: scan_byte_def split: if_splits)

lemma scan_byte_unarmed:
  "scan_byte s b = (a, s') \<Longrightarrow> \<not> tildeSeen s \<Longrightarrow> \<not> tildeSeen s' \<Longrightarrow>
   a = Forward [b] \<and> lastWasNewline s' = isLineEnd b"
  by (auto simp: scan_byte_def split: if_splits)

lemma two_tildes:
  "copyWithEscapeDetection (feed [tilde, tilde])
     = ([[tilde, tilde]], False, Reading \<lparr>lastWasNewline = False, tildeSeen = False\<rparr>)"
  by (simp add: copyWithEscapeDetection_def feed_def initScanner_def scan_byte_def
        isLineEnd_def tilde_def dot_def CR_def LF_def)

text \<open>
  Claim C10. In every reachable state of the loop the flags \<open>tildeSeen\<close> and
  \<open>lastWasNewline\<close> are not both set. An iteration that arms (sets \<open>tildeSeen\<close>) read
  \<open>~\<close> at a line start and clears \<open>lastWasNewline\<close>; an iteration that disarms without
  reporting the escape sets \<open>lastWasNewline\<close> exactly when its byte is CR or LF; so after a
  disarming byte the loop arms again only if that byte was CR or LF. At a line start
  \<open>~~\<close> is written out as both tildes and leaves the loop disarmed.
\<close>

theorem flags_never_both_set:
  assumes "reachable s"
  shows "\<not> (tildeSeen s \<and> lastWasNewline s)
    \<and> (\<forall>b a s'. scan_byte s b = (a, s') \<longrightarrow>
          (\<not> tildeSeen s \<and> tildeSeen s' \<longrightarrow> b = tilde \<and> lastWasNewline s \<and> \<not> lastWasNewline s')
        \<and> (tildeSeen s \<and> a \<noteq> EscapeTriggered \<longrightarrow> \<not> tildeSeen s' \<and> lastWasNewline s' = isLineEnd b)
        \<and> (tildeSeen s \<and> a \<noteq> EscapeTriggered \<longrightarrow>
             (\<forall>b2 a2 s2. scan_byte s' b2 = (a2, s2) \<and> tildeSeen s2 \<longrightarrow> isLineEnd b \<and> b2 = tilde)))
    \<and> copyWithEscapeDetection (feed [tilde, tilde])
         = ([[tilde, tilde]], False, Reading \<lparr>lastWasNewline = False, tildeSeen = False\<rparr>)"
proof -
  have inv: "\<not> (tildeSeen s \<and> lastWasNewline s)"
    using assms by (rule reachable_exclusive)
  have step: "(\<not> tildeSeen s \<and> tildeSeen s' \<longrightarrow> b = tilde \<and> lastWasNewline s \<and> \<not> lastWasNewline s')
        \<and> (tildeSeen s \<and> a \<noteq> EscapeTriggered \<longrightarrow> \<not> tildeSeen s' \<and> lastWasNewline s' = isLineEnd b)
        \<and> (tildeSeen s \<and> a \<noteq> EscapeTriggered \<longrightarrow>
             (\<forall>b2 a2 s2. scan_byte s' b2 = (a2, s2) \<and> tildeSeen s2 \<longrightarrow> isLineEnd b \<and> b2 = tilde))"
    if sb: "scan_byte s b = (a, s')" for b a s'
  proof (intro conjI impI allI)
    assume "\<not> tildeSeen s \<and> tildeSeen s'"
    then show "b = tilde" "lastWasNewline s" "\<not> lastWasNewline s'"
      using scan_byte_arm[OF sb] by blast+
  next
    assume h: "tildeSeen s \<and> a \<noteq> EscapeTriggered"
    then have d: "\<not> tildeSeen s' \<and> lastWasNewline s' = isLineEnd b"
      using scan_byte_disarm[OF sb] inv by blast
    then show "\<not> tildeSeen s'" "lastWasNewline s' = isLineEnd b" by blast+
  next
    fix b2 a2 s2
    assume h: "tildeSeen s \<and> a \<noteq> EscapeTriggered" and h2: "scan_byte s' b2 = (a2, s2) \<and> tildeSeen s2"
    have d: "\<not> tildeSeen s'" "lastWasNewline s' = isLineEnd b"
      using scan_byte_disarm[OF sb] inv h by blast+
    have "b2 = tilde \<and> lastWasNewline s'"
      using scan_byte_arm[of s' b2 a2 s2] h2 d(1) by blast
    then show "isLineEnd b" "b2 = tilde" using d(2) by blast+
  qed
  show ?thesis using inv step two_tildes by blast
qed

theorem flags_never_both_set_witness:
  "reachable \<lparr>lastWasNewline = False, tildeSeen = True\<rparr>
   \<and> \<not> (tildeSeen \<lparr>lastWasNewline = False, tildeSeen = True\<rparr> \<and> lastWasNewline \<lparr>lastWasNewline = False, tildeSeen = True\<rparr>)
   \<and> copyWithEscapeDetection (feed [tilde, tilde])
         = ([[tilde, tilde]], False, Reading \<lparr>lastWasNewline = False, tildeSeen = False\<rparr>)"
proof -
  have "scan_byte initScanner tilde = (Suppress, \<lparr>lastWasNewline = False, tildeSeen = True\<rparr>)"
    by (simp add: scan_byte_def initScanner_def)
  then have r: "reachable \<lparr>lastWasNewline = False, tildeSeen = True\<rparr>"
    using reachable_init reachable_step by blast
  show ?thesis using r flags_never_both_set[OF r] by blast
qed


subsection \<open>When the escape is reported\<close>

lemma escAfter_False: "escAfter False (c # r) = escAfter (isLineEnd c) r"
  by simp

lemma copyLoop_escape:
  "(\<not> tildeSeen s \<longrightarrow> fst (snd (copyLoop s (feed bs))) = escAfter (lastWasNewline s) bs)
 \<and> (tildeSeen s \<and> \<not> lastWasNewline s \<longrightarrow>
      fst (snd (copyLoop s (feed bs))) = (case bs of [] \<Rightarrow> False | c # r \<Rightarrow> c = dot \<or> escAfter (isLineEnd c) r))"
proof (induction bs arbitrary: s)
  case Nil
  show ?case by (simp add: feed_def)
next
  case (Cons b bs)
  have feedC: "feed (x # xs) = Read 1 x None # feed xs" for x xs by (simp add: feed_def)
  show ?case
  proof (intro conjI impI)
    assume u: "\<not> tildeSeen s"
    show "fst (snd (copyLoop s (feed (b # bs)))) = escAfter (lastWasNewline s) (b # bs)"
    proof (cases "lastWasNewline s \<and> b = tilde")
      case True
      let ?s = "s\<lparr>tildeSeen := True, lastWasNewline := False\<rparr>"
      have sb: "scan_byte s b = (Suppress, ?s)" using True by (simp add: scan_byte_def)
      have "fst (snd (copyLoop ?s (feed bs))) = (case bs of [] \<Rightarrow> False | c # r \<Rightarrow> c = dot \<or> escAfter (isLineEnd c) r)"
        using Cons.IH[of ?s] by simp
      moreover have "copyLoop s (feed (b # bs)) = copyLoop ?s (feed bs)"
        using sb by (simp add: feedC)
      moreover have "\<not> isLineEnd tilde" by (simp add: isLineEnd_def tilde_def CR_def LF_def)
      ultimately show ?thesis using True by (cases bs) simp_all
    next
      case False
      let ?s = "s\<lparr>lastWasNewline := isLineEnd b\<rparr>"
      have sb: "scan_byte s b = (Forward [b], ?s)" using False u by (simp add: scan_byte_def)
      have "fst (snd (copyLoop ?s (feed bs))) = escAfter (isLineEnd b) bs"
        using Cons.IH[of ?s] u by simp
      moreover have "fst (snd (copyLoop s (feed (b # bs)))) = fst (snd (copyLoop ?s (feed bs)))"
        using sb by (simp add: feedC split: prod.splits)
      ultimately show ?thesis using False by auto
    qed
  next
    assume a: "tildeSeen s \<and> \<not> lastWasNewline s"
    show "fst (snd (copyLoop s (feed (b # bs)))) = (case b # bs of [] \<Rightarrow> False | c # r \<Rightarrow> c = dot \<or> escAfter (isLineEnd c) r)"
    proof (cases "b = dot")
      case True
      have "scan_byte s b = (EscapeTriggered, s)" using True a by (simp add: scan_byte_def)
      then show ?thesis using True by (simp add: feedC)
    next
      case False
      let ?s = "s\<lparr>tildeSeen := False, lastWasNewline := isLineEnd b\<rparr>"
      have sb: "scan_byte s b = (Forward [tilde, b], ?s)" using False a by (simp add: scan_byte_def)
      have "fst (snd (copyLoop ?s (feed bs))) = escAfter (isLineEnd b) bs"
        using Cons.IH[of ?s] by simp
      moreover have "fst (snd (copyLoop s (feed (b # bs)))) = fst (snd (copyLoop ?s (feed bs)))"
        using sb by (simp add: feedC split: prod.splits)
      ultimately show ?thesis using False by simp
    qed
  qed
qed

lemma escAfter_index:
  "escAfter a bs = (\<exists>i. Suc i < length bs \<and> bs ! i = tilde \<and> bs ! Suc i = dot
                        \<and> (if i = 0 then a else isLineEnd (bs ! (i - 1))))"
proof (induction bs arbitrary: a)
  case Nil
  show ?case by simp
next
  case (Cons b bs)
  let ?P = "\<lambda>a xs i. Suc i < length xs \<and> xs ! i = tilde \<and> xs ! Suc i = dot
                        \<and> (if i = 0 then a else isLineEnd (xs ! (i - 1)))"
  have hd_eq: "(a \<and> b = tilde \<and> (case bs of [] \<Rightarrow> False | c # _ \<Rightarrow> c = dot)) = ?P a (b # bs) 0"
    by (cases bs) auto
  have shift: "?P (isLineEnd b) bs j = ?P a (b # bs) (Suc j)" for j
    by (cases j) auto
  have "escAfter a (b # bs) = (?P a (b # bs) 0 \<or> (\<exists>j. ?P (isLineEnd b) bs j))"
    using Cons.IH[of "isLineEnd b"] hd_eq by simp
  also have "\<dots> = (?P a (b # bs) 0 \<or> (\<exists>j. ?P a (b # bs) (Suc j)))"
    using shift by simp
  also have "\<dots> = (\<exists>i. ?P a (b # bs) i)"
  proof
    assume "?P a (b # bs) 0 \<or> (\<exists>j. ?P a (b # bs) (Suc j))"
    then show "\<exists>i. ?P a (b # bs) i" by blast
  next
    assume "\<exists>i. ?P a (b # bs) i"
    then obtain i where i: "?P a (b # bs) i" by blast
    show "?P a (b # bs) 0 \<or> (\<exists>j. ?P a (b # bs) (Suc j))"
    proof (cases i)
      case 0
      then show ?thesis using i by blast
    next
      case (Suc j)
      then have "?P a (b # bs) (Suc j)" using i by blast
      then show ?thesis by blast
    qed
  qed
  finally show ?case .
qed

lemma escaped_iff: "escaped bs = (\<exists>i. escapeSeqAt bs i)"
proof -
  have "escaped bs = escAfter True bs"
    using copyLoop_escape[of initScanner bs]
    by (simp add: escaped_def copyWithEscapeDetection_def initScanner_def)
  also have "\<dots> = (\<exists>i. Suc i < length bs \<and> bs ! i = tilde \<and> bs ! Suc i = dot
                        \<and> (if i = 0 then True else isLineEnd (bs ! (i - 1))))"
    by (rule escAfter_index)
  also have "\<dots> = (\<exists>i. escapeSeqAt bs i)"
    unfolding escapeSeqAt_def by (rule ex_cong1) simp
  finally show ?thesis .
qed

lemma armed_other_byte:
  "reachable s \<Longrightarrow> tildeSeen s \<Longrightarrow> b \<noteq> dot \<Longrightarrow>
   fst (scan_byte s b) = Forward [tilde, b] \<and> \<not> tildeSeen (snd (scan_byte s b))
   \<and> lastWasNewline (snd (scan_byte s b)) = isLineEnd b"
  using reachable_exclusive[of s] by (simp add: scan_byte_def)

lemma armed_dot:
  "reachable s \<Longrightarrow> tildeSeen s \<Longrightarrow> fst (scan_byte s dot) = EscapeTriggered"
  using reachable_exclusive[of s] by (simp add: scan_byte_def)

lemma newline_tilde_dot:
  "copyWithEscapeDetection (feed [LF, tilde, dot]) = ([[LF]], True, Returned None)"
  by (simp add: copyWithEscapeDetection_def feed_def initScanner_def scan_byte_def
        isLineEnd_def tilde_def dot_def CR_def LF_def)

lemma newline_tilde_other:
  "x \<noteq> dot \<Longrightarrow> copyWithEscapeDetection (feed [LF, tilde, x])
     = ([[LF], [tilde, x]], False, Reading \<lparr>lastWasNewline = isLineEnd x, tildeSeen = False\<rparr>)"
  by (simp add: copyWithEscapeDetection_def feed_def initScanner_def scan_byte_def
        isLineEnd_def tilde_def dot_def CR_def LF_def)

text \<open>
  The stream LF, \<open>~\<close>, \<open>.\<close> from the initial state: the escape is reported, and the
  LF byte, read in the last branch of the loop, has been written to the child before.
\<close>

theorem newline_forwarded_before_escape:
  "escaped [10, 126, 46] \<and> forwarded [10, 126, 46] = [10] \<and> forwarded [10, 126, 46] \<noteq> []"
  by (simp add: escaped_def forwarded_def copyWithEscapeDetection_def feed_def initScanner_def
        scan_byte_def isLineEnd_def tilde_def dot_def CR_def LF_def)

text \<open>
  Claim C2. The loop reports the escape exactly for the streams that hold \<open>~\<close> then
  \<open>.\<close> with the \<open>~\<close> at the stream start or right after a CR or LF byte. In an armed
  state \<open>.\<close> reports the escape, and any other byte \<open>b\<close> is written as \<open>~b\<close> and disarms.
  For LF, \<open>~\<close>, \<open>.\<close> the escape is reported and only the LF has been written, neither
  \<open>~\<close> nor \<open>.\<close>; for LF, \<open>~\<close>, \<open>x\<close> with \<open>x\<close> not \<open>.\<close> all three bytes are
  written and no escape is reported.
\<close>

theorem escape_only_tilde_dot_at_line_start:
  "(escaped bs \<longleftrightarrow> (\<exists>i. escapeSeqAt bs i))
 \<and> (reachable s \<and> tildeSeen s \<longrightarrow> fst (scan_byte s dot) = EscapeTriggered)
 \<and> (reachable s \<and> tildeSeen s \<and> b \<noteq> dot \<longrightarrow>
      fst (scan_byte s b) = Forward [tilde, b] \<and> \<not> tildeSeen (snd (scan_byte s b))
      \<and> lastWasNewline (snd (scan_byte s b)) = isLineEnd b)
 \<and> escaped [LF, tilde, dot] \<and> forwarded [LF, tilde, dot] = [LF]
 \<and> (x \<noteq> dot \<longrightarrow> \<not> escaped [LF, tilde, x] \<and> forwarded [LF, tilde, x] = [LF, tilde, x])"
proof -
  have 1: "escaped bs \<longleftrightarrow> (\<exists>i. escapeSeqAt bs i)" by (rule escaped_iff)
  have 2: "reachable s \<and> tildeSeen s \<longrightarrow> fst (scan_byte s dot) = EscapeTriggered"
    using armed_dot by blast
  have 3: "reachable s \<and> tildeSeen s \<and> b \<noteq> dot \<longrightarrow>
      fst (scan_byte s b) = Forward [tilde, b] \<and> \<not> tildeSeen (snd (scan_byte s b))
      \<and> lastWasNewline (snd (scan_byte s b)) = isLineEnd b"
    using armed_other_byte by blast
  have 4: "escaped [LF, tilde, dot] \<and> forwarded [LF, tilde, dot] = [LF]"
    by (simp add: escaped_def forwarded_def newline_tilde_dot)
  have 5: "x \<noteq> dot \<longrightarrow> \<not> escaped [LF, tilde, x] \<and> forwarded [LF, tilde, x] = [LF, tilde, x]"
    by (simp add: escaped_def forwarded_def newline_tilde_other)
  show ?thesis using 1 2 3 4 5 by blast
qed

theorem escape_only_tilde_dot_at_line_start_witness:
  "escapeSeqAt [97, 13, 126, 46, 98] 2 \<and> escaped [97, 13, 126, 46, 98]
 \<and> reachable \<lparr>lastWasNewline = False, tildeSeen = True\<rparr>
 \<and> fst (scan_byte \<lparr>lastWasNewline = False, tildeSeen = True\<rparr> 47) = Forward [tilde, 47]
 \<and> \<not> tildeSeen (snd (scan_byte \<lparr>lastWasNewline = False, tildeSeen = True\<rparr> 47))
 \<and> fst (scan_byte \<lparr>lastWasNewline = False, tildeSeen = True\<rparr> dot) = EscapeTriggered
 \<and> \<not> escaped [LF, tilde, 120] \<and> forwarded [LF, tilde, 120] = [LF, tilde, 120]"
proof -
  have e: "escapeSeqAt [97, 13, 126, 46, 98] 2"
    by (simp add: escapeSeqAt_def tilde_def dot_def isLineEnd_def CR_def LF_def numeral_2_eq_2)
  have "scan_byte initScanner tilde = (Suppress, \<lparr>lastWasNewline = False, tildeSeen = True\<rparr>)"
    by (simp add: scan_byte_def initScanner_def)
  then have r: "reachable \<lparr>lastWasNewline = False, tildeSeen = True\<rparr>"
    using reachable_init reachable_step by blast
  have t: "tildeSeen \<lparr>lastWasNewline = False, tildeSeen = True\<rparr>" by simp
  have n: "(47::byte) \<noteq> dot" "(120::byte) \<noteq> dot" by (simp_all add: dot_def)
  show ?thesis
    using e r t n
      escape_only_tilde_dot_at_line_start[of "[97, 13, 126, 46, 98]" "\<lparr>lastWasNewline = False, tildeSeen = True\<rparr>" 47 120]
    by blast
qed


end
